theory Spec2Isabelle
  imports Main "HOL-Library.AList"
begin

section \<open>JavaScript values and string primitives\<close>

text \<open>
  A cell of a spreadsheet row is typed \<open>any\<close> in \<open>ProductRow\<close>; the data model of the
  grid uses strings, numbers and absent values. Numbers are restricted to integers, whose
  \<open>String(n)\<close> is the decimal numeral. Strings are sequences of code units below 256
  (Latin-1), so \<open>length\<close> is the JavaScript \<open>.length\<close>.
\<close>

datatype jsval = JString string | JNumber int | JNull | JUndefined

datatype js_error = TypeError

definition charCode :: "char \<Rightarrow> nat" where
  "charCode c = of_char c"

text \<open>\<open>String.prototype.toLowerCase\<close> on Latin-1: A-Z and the accented capitals
  (0xC0-0xDE except the multiplication sign 0xD7) move up by 32.\<close>

definition toLowerChar :: "char \<Rightarrow> char" where
  "toLowerChar c =
     (let n = charCode c in
      if (65 \<le> n \<and> n \<le> 90) \<or> (192 \<le> n \<and> n \<le> 222 \<and> n \<noteq> 215)
      then char_of (n + 32) else c)"

definition toLowerCase :: "string \<Rightarrow> string" where
  "toLowerCase s = map toLowerChar s"

text \<open>White space stripped by \<open>String.prototype.trim\<close>, as far as it lies below 256:
  TAB, LF, VT, FF, CR, SPACE and NBSP.\<close>

definition isWhiteSpace :: "char \<Rightarrow> bool" where
  "isWhiteSpace c = (charCode c \<in> {9, 10, 11, 12, 13, 32, 160})"

definition trim :: "string \<Rightarrow> string" where
  "trim s = rev (dropWhile isWhiteSpace (rev (dropWhile isWhiteSpace s)))"

definition isDigit :: "char \<Rightarrow> bool" where
  "isDigit c = (48 \<le> charCode c \<and> charCode c \<le> 57)"

text \<open>\<open>/^\d+$/.test(s)\<close>: one or more decimal digits and nothing else.\<close>

definition digitsOnly_test :: "string \<Rightarrow> bool" where
  "digitsOnly_test s = (s \<noteq> [] \<and> list_all isDigit s)"

fun startsWith :: "string \<Rightarrow> string \<Rightarrow> bool" where
  "startsWith s [] = True"
| "startsWith [] (c # t) = False"
| "startsWith (a # s) (c # t) = (a = c \<and> startsWith s t)"

text \<open>\<open>s.includes(t)\<close>: \<open>t\<close> occurs in \<open>s\<close> as a contiguous substring.\<close>

fun includes_str :: "string \<Rightarrow> string \<Rightarrow> bool" where
  "includes_str [] t = (t = [])"
| "includes_str (a # s) t = (startsWith (a # s) t \<or> includes_str s t)"

definition digitChar :: "nat \<Rightarrow> char" where
  "digitChar d = char_of (48 + d)"

fun natToString :: "nat \<Rightarrow> string" where
  "natToString n = (if n < 10 then [digitChar n] else natToString (n div 10) @ [digitChar (n mod 10)])"

declare natToString.simps [simp del]

definition numberToString :: "int \<Rightarrow> string" where
  "numberToString n = (if n < 0 then CHR ''-'' # natToString (nat (- n)) else natToString (nat n))"

text \<open>The global \<open>String(val)\<close>. For an integer below \<open>10^21\<close> in absolute value that
  a double represents exactly, \<open>String(n)\<close> is the decimal numeral printed here; beyond that
  range JavaScript rounds or prints an exponent, and fractions and \<open>NaN\<close> have no value in
  \<open>jsval\<close>. The theorems below refer to \<open>String_val\<close> as a whole and do not depend on
  the digits it prints.\<close>

fun String_val :: "jsval \<Rightarrow> string" where
  "String_val (JString s) = s"
| "String_val (JNumber n) = numberToString n"
| "String_val JNull = ''null''"
| "String_val JUndefined = ''undefined''"

section \<open>Rows and file sessions (types.ts)\<close>

datatype ProcessingStatus = INCOMPLETE | COMPLETED

fun statusString :: "ProcessingStatus \<Rightarrow> string" where
  "statusString INCOMPLETE = ''Incomplete''"
| "statusString COMPLETED = ''Completed''"

text \<open>
  \<open>interface ProductRow { id: string; [key: string]: any; processingStatus: ProcessingStatus }\<close>.
  The index signature is the association list \<open>cells\<close>, in the order in which
  \<open>Object.keys\<close> enumerates the keys.
\<close>

record ProductRow =
  row_id :: string
  cells :: "(string \<times> jsval) list"
  processingStatus :: ProcessingStatus

record FileSession =
  file_id :: string
  file_name :: string
  createdAt :: int
  file_data :: "ProductRow list"

definition reservedKey :: "string \<Rightarrow> bool" where
  "reservedKey k = (k = ''id'' \<or> k = ''processingStatus'')"

text \<open>The own enumerable properties of a row object: the two declared fields and the
  cells; a cell cannot carry the name of a declared field.\<close>

definition Object_entries :: "ProductRow \<Rightarrow> (string \<times> jsval) list" where
  "Object_entries row =
     (''id'', JString (row_id row))
     # filter (\<lambda>(k, v). \<not> reservedKey k) (cells row)
     @ [(''processingStatus'', JString (statusString (processingStatus row)))]"

definition Object_keys :: "ProductRow \<Rightarrow> string list" where
  "Object_keys row = map fst (Object_entries row)"

definition Object_values :: "ProductRow \<Rightarrow> jsval list" where
  "Object_values row = map snd (Object_entries row)"

text \<open>\<open>row[key]\<close>: a key that is not an own property reads as \<open>undefined\<close>. Keys that
  \<open>Object.prototype\<close> supplies (\<open>constructor\<close>, \<open>toString\<close> and the like), for which
  JavaScript reads the inherited member, are outside this model.\<close>

definition row_get :: "ProductRow \<Rightarrow> string \<Rightarrow> jsval" where
  "row_get row key = (case map_of (Object_entries row) key of Some v \<Rightarrow> v | None \<Rightarrow> JUndefined)"

section \<open>DataGrid: headers and name-column inference\<close>

text \<open>\<open>Object.keys(data[0]).filter(k => k !== 'id' && k !== 'processingStatus')\<close>; the
  component returns before this point when \<open>data\<close> is empty.\<close>

definition headers :: "ProductRow list \<Rightarrow> string list" where
  "headers data =
     (case data of [] \<Rightarrow> []
      | row0 # _ \<Rightarrow> filter (\<lambda>k. k \<noteq> ''id'' \<and> k \<noteq> ''processingStatus'') (Object_keys row0))"

record ScoreEntry =
  header :: string
  score :: int

record Counters =
  numberCount :: nat
  shortStringCount :: nat
  longStringCount :: nat
  hasSpacesCount :: nat

text \<open>The value of \<open>score\<close> after the header-text rules (the \<open>else if\<close> chain and the two
  penalty statements), as a function of the lower-cased header.\<close>

definition headerScore :: "string \<Rightarrow> int" where
  "headerScore lowerH =
     (let score = 0;
          score = (if includes_str lowerH ''classification data'' then score + 100
                   else if includes_str lowerH ''description'' \<or> includes_str lowerH ''desc'' then score + 80
                   else if includes_str lowerH ''product name'' \<or> includes_str lowerH ''item name'' then score + 70
                   else if lowerH = ''name'' then score + 60
                   else if includes_str lowerH ''title'' then score + 50
                   else score);
          score = (if includes_str lowerH ''id'' \<or> includes_str lowerH ''code'' \<or> includes_str lowerH ''sku''
                      \<or> includes_str lowerH ''number'' \<or> includes_str lowerH ''no.''
                   then score - 50 else score);
          score = (if includes_str lowerH ''price'' \<or> includes_str lowerH ''cost'' \<or> includes_str lowerH ''qty''
                      \<or> includes_str lowerH ''quantity''
                   then score - 100 else score)
      in score)"

text \<open>The body of the sampling loop for one value \<open>val = data[i][header]\<close>.\<close>

fun tally :: "Counters \<Rightarrow> jsval \<Rightarrow> Counters" where
  "tally c (JNumber n) = c\<lparr>numberCount := numberCount c + 1\<rparr>"
| "tally c (JString val) =
     (if digitsOnly_test (trim val) then c\<lparr>numberCount := numberCount c + 1\<rparr>
      else
        (let c = (if length val < 3 then c\<lparr>shortStringCount := shortStringCount c + 1\<rparr> else c);
             c = (if length val > 5 then c\<lparr>longStringCount := longStringCount c + 1\<rparr> else c);
             c = (if includes_str val '' '' then c\<lparr>hasSpacesCount := hasSpacesCount c + 1\<rparr> else c)
         in c))"
| "tally c JNull = c"
| "tally c JUndefined = c"

definition sampleSize :: "ProductRow list \<Rightarrow> nat" where
  "sampleSize data = min (length data) 5"

text \<open>The values \<open>data[i][header]\<close> for \<open>i = 0 .. sampleSize - 1\<close>; the bound keeps every
  index inside the array.\<close>

definition sampleColumn :: "ProductRow list \<Rightarrow> string \<Rightarrow> jsval list" where
  "sampleColumn data hd_name = map (\<lambda>row. row_get row hd_name) (take (sampleSize data) data)"

definition zeroCounters :: Counters where
  "zeroCounters = \<lparr>numberCount = 0, shortStringCount = 0, longStringCount = 0, hasSpacesCount = 0\<rparr>"

text \<open>The three statements after the loop. \<open>numberCount > sampleSize * 0.6\<close> is a
  comparison of doubles; for \<open>sampleSize \<le> 5\<close> the products are 0, 0.6, 1.2, 1.79..., 2.4
  and 3, so it agrees with the exact comparison \<open>5 * numberCount > 3 * sampleSize\<close>.\<close>

definition shapeScore :: "Counters \<Rightarrow> nat \<Rightarrow> int" where
  "shapeScore c n =
     (let score = 0;
          score = (if 5 * numberCount c > 3 * n then score - 200 else score);
          score = (if hasSpacesCount c > 0 then score + 50 else score);
          score = (if longStringCount c > 0 then score + 30 else score)
      in score)"

text \<open>The callback of \<open>headers.map\<close>.\<close>

definition scoreHeader :: "ProductRow list \<Rightarrow> string \<Rightarrow> ScoreEntry" where
  "scoreHeader data hd_name =
     (let lowerH = toLowerCase hd_name;
          c = foldl tally zeroCounters (sampleColumn data hd_name)
      in \<lparr>header = hd_name, score = headerScore lowerH + shapeScore c (sampleSize data)\<rparr>)"

text \<open>\<open>scores.sort((a, b) => b.score - a.score)\<close> is a stable sort (ECMAScript 2019) in
  descending order of score; \<open>scores[0].header\<close> throws a TypeError on an empty array.\<close>

definition detectedNameCol :: "string list \<Rightarrow> ProductRow list \<Rightarrow> js_error + string" where
  "detectedNameCol hs data =
     (if length hs = 0 then Inr ''''
      else
        (let scores = map (scoreHeader data) hs;
             scores = sort_key (\<lambda>e. - score e) scores
         in case scores of [] \<Rightarrow> Inl TypeError | e # _ \<Rightarrow> Inr (header e)))"

section \<open>DataGrid: default group-by column\<close>

definition groupTokens :: "string list" where
  "groupTokens = [''unit'', ''measure'', ''packaging'', ''material'', ''type'', ''cat'', ''group'',
                  ''classification code'']"

text \<open>\<open>/unit|measure|packaging|material|type|cat|group|classification code/i.test(h)\<close>:
  some alternative occurs in \<open>h\<close>, letters compared without case. The alternatives are
  lower-case ASCII, and below 256 only an ASCII letter folds to an ASCII letter, so the test
  is a substring test on the lower-cased header.\<close>

definition groupRegex_test :: "string \<Rightarrow> bool" where
  "groupRegex_test h = list_ex (\<lambda>tok. includes_str (toLowerCase h) tok) groupTokens"

text \<open>The effect on \<open>[headers, classifyCol]\<close>, as the next value of the state
  \<open>classifyCol\<close>. \<open>if (candidate)\<close> tests the found header for truthiness.\<close>

definition classifyColEffect :: "string list \<Rightarrow> string \<Rightarrow> string" where
  "classifyColEffect hs classifyCol =
     (if classifyCol \<in> set hs then classifyCol
      else if length hs > 0 then
        (case find groupRegex_test hs of
           Some candidate \<Rightarrow> (if candidate \<noteq> [] then candidate else [])
         | None \<Rightarrow> [])
      else classifyCol)"

section \<open>DataGrid: tags\<close>

record Tag =
  tag :: string
  count :: nat

text \<open>\<open>rawVal !== undefined && rawVal !== null ? String(rawVal).trim() : 'N/A'\<close>, the
  expression shared by the tag derivation and the filter.\<close>

definition groupValue :: "ProductRow \<Rightarrow> string \<Rightarrow> string" where
  "groupValue row classifyCol =
     (let rawVal = row_get row classifyCol
      in if rawVal \<noteq> JUndefined \<and> rawVal \<noteq> JNull then trim (String_val rawVal) else ''N/A'')"

text \<open>\<open>counts.get(val) || 0\<close> on a \<open>Map\<close> kept as an association list in insertion order.\<close>

definition counts_get :: "(string \<times> nat) list \<Rightarrow> string \<Rightarrow> nat" where
  "counts_get counts val = (case map_of counts val of Some n \<Rightarrow> n | None \<Rightarrow> 0)"

text \<open>The body of \<open>data.forEach\<close>; \<open>if (val)\<close> skips the empty string.\<close>

definition countRow :: "string \<Rightarrow> (string \<times> nat) list \<Rightarrow> ProductRow \<Rightarrow> (string \<times> nat) list" where
  "countRow classifyCol counts row =
     (let val = groupValue row classifyCol
      in if val \<noteq> [] then AList.update val (counts_get counts val + 1) counts else counts)"

definition tags :: "ProductRow list \<Rightarrow> string \<Rightarrow> Tag list" where
  "tags data classifyCol =
     (if classifyCol = [] then []
      else
        (let counts = foldl (countRow classifyCol) [] data
         in map (\<lambda>(t, n). \<lparr>tag = t, count = n\<rparr>) (sort_key (\<lambda>(t, n). - int n) counts)))"

section \<open>DataGrid: filter\<close>

definition matchesSearch :: "string \<Rightarrow> ProductRow \<Rightarrow> bool" where
  "matchesSearch searchTerm row =
     list_ex (\<lambda>val. includes_str (toLowerCase (String_val val)) (toLowerCase searchTerm))
       (Object_values row)"

text \<open>\<open>activeTag\<close> is \<open>string | null\<close>; \<open>if (activeTag)\<close> holds for a non-empty string.\<close>

definition matchesTag :: "string option \<Rightarrow> string \<Rightarrow> ProductRow \<Rightarrow> bool" where
  "matchesTag activeTag classifyCol row =
     (case activeTag of
        None \<Rightarrow> True
      | Some t \<Rightarrow> (if t \<noteq> [] then groupValue row classifyCol = t else True))"

definition filteredData :: "ProductRow list \<Rightarrow> string \<Rightarrow> string option \<Rightarrow> string \<Rightarrow> ProductRow list" where
  "filteredData data searchTerm activeTag classifyCol =
     filter (\<lambda>row. matchesSearch searchTerm row \<and> matchesTag activeTag classifyCol row) data"

section \<open>StatusToggle and App.handleUpdateStatus\<close>

text \<open>The status passed to \<open>onChange\<close> when the button is clicked.\<close>

definition StatusToggle :: "ProcessingStatus \<Rightarrow> ProcessingStatus" where
  "StatusToggle status =
     (let isCompleted = (status = COMPLETED) in if isCompleted then INCOMPLETE else COMPLETED)"

text \<open>\<open>setFiles(prev => prev.map(...))\<close>, as a function of the previous files;
  \<open>!activeFileId\<close> holds for \<open>null\<close> and for the empty string. The data of a
  \<open>FileSession\<close> is an array, so \<open>currentData\<close> is \<open>file.data\<close>.\<close>

definition handleUpdateStatus ::
  "string option \<Rightarrow> string \<Rightarrow> ProcessingStatus \<Rightarrow> FileSession list \<Rightarrow> FileSession list" where
  "handleUpdateStatus activeFileId rid newStatus prev =
     (case activeFileId of
        None \<Rightarrow> prev
      | Some fid \<Rightarrow>
          if fid = [] then prev
          else map (\<lambda>file.
                 if file_id file \<noteq> fid then file
                 else file\<lparr>file_data :=
                        map (\<lambda>row. if row_id row = rid then row\<lparr>processingStatus := newStatus\<rparr> else row)
                          (file_data file)\<rparr>) prev)"

text \<open>The wiring in the grid:
  \<open>onChange={(newStatus) => onUpdateStatus(row.id, newStatus)}\<close> on the toggle of \<open>row\<close>.\<close>

definition clickStatusToggle :: "string option \<Rightarrow> ProductRow \<Rightarrow> FileSession list \<Rightarrow> FileSession list" where
  "clickStatusToggle activeFileId row files =
     handleUpdateStatus activeFileId (row_id row) (StatusToggle (processingStatus row)) files"

section \<open>Vocabulary of the specification\<close>

text \<open>A sampled value is numeric when it is a number, or a string of digits after trimming.\<close>

fun numericValue :: "jsval \<Rightarrow> bool" where
  "numericValue (JNumber n) = True"
| "numericValue (JString s) = digitsOnly_test (trim s)"
| "numericValue JNull = False"
| "numericValue JUndefined = False"

text \<open>A string value whose text satisfies \<open>P\<close>.\<close>

fun stringWith :: "(string \<Rightarrow> bool) \<Rightarrow> jsval \<Rightarrow> bool" where
  "stringWith P (JString s) = P s"
| "stringWith P (JNumber n) = False"
| "stringWith P JNull = False"
| "stringWith P JUndefined = False"

text \<open>A string value that is not numeric and whose text satisfies \<open>P\<close>.\<close>

definition textWith :: "(string \<Rightarrow> bool) \<Rightarrow> jsval \<Rightarrow> bool" where
  "textWith P v = (stringWith P v \<and> \<not> numericValue v)"

text \<open>More than 60 percent of the sampled values are numeric.\<close>

definition mostlyNumeric :: "jsval list \<Rightarrow> bool" where
  "mostlyNumeric vals = (5 * length (filter numericValue vals) > 3 * length vals)"

text \<open>The content-shape score in the words of the specification: every sampled string
  counts for the two bonuses.\<close>

definition contentShape_spec :: "jsval list \<Rightarrow> int" where
  "contentShape_spec vals =
     (if mostlyNumeric vals then - 200 else 0)
     + (if list_ex (stringWith (\<lambda>s. includes_str s '' '')) vals then 50 else 0)
     + (if list_ex (stringWith (\<lambda>s. length s > 5)) vals then 30 else 0)"

text \<open>The content-shape score with the bonuses restricted to non-numeric strings.\<close>

definition contentShape_text :: "jsval list \<Rightarrow> int" where
  "contentShape_text vals =
     (if mostlyNumeric vals then - 200 else 0)
     + (if list_ex (textWith (\<lambda>s. includes_str s '' '')) vals then 50 else 0)
     + (if list_ex (textWith (\<lambda>s. length s > 5)) vals then 30 else 0)"

text \<open>The count shown for a tag, 0 when the tag is not in the list.\<close>

definition tagCount :: "Tag list \<Rightarrow> string \<Rightarrow> nat" where
  "tagCount ts t = sum_list (map count (filter (\<lambda>e. tag e = t) ts))"

text \<open>A group value that is null, undefined or empty after trimming.\<close>

definition blankValue :: "jsval \<Rightarrow> bool" where
  "blankValue v = (v = JNull \<or> v = JUndefined \<or> trim (String_val v) = [])"

text \<open>A value that is null or undefined.\<close>

definition nullish :: "jsval \<Rightarrow> bool" where
  "nullish v = (v = JNull \<or> v = JUndefined)"

section \<open>Sample data\<close>

text \<open>The example scenario of the specification.\<close>

definition widgetRows :: "ProductRow list" where
  "widgetRows =
     [\<lparr>row_id = ''1'', cells = [(''Name'', JString ''Widget A''), (''Price'', JNumber 10), (''Unit'', JString ''box'')],
       processingStatus = INCOMPLETE\<rparr>,
      \<lparr>row_id = ''2'', cells = [(''Name'', JString ''Widget B''), (''Price'', JNumber 0), (''Unit'', JString ''box'')],
       processingStatus = INCOMPLETE\<rparr>,
      \<lparr>row_id = ''3'', cells = [(''Name'', JString ''Gadget''), (''Price'', JNumber 5), (''Unit'', JString ''case'')],
       processingStatus = COMPLETED\<rparr>]"

text \<open>Two columns with the same score.\<close>

definition tieRows :: "ProductRow list" where
  "tieRows =
     [\<lparr>row_id = ''r1'', cells = [(''Unit'', JString ''box''), (''Kind'', JString ''big'')],
       processingStatus = INCOMPLETE\<rparr>]"

text \<open>Rows of uneven shape: a missing key, a number and a string in one column, an empty
  string.\<close>

definition raggedRows :: "ProductRow list" where
  "raggedRows =
     [\<lparr>row_id = ''a'', cells = [(''Name'', JString ''''), (''Qty'', JNumber 4)], processingStatus = INCOMPLETE\<rparr>,
      \<lparr>row_id = ''b'', cells = [(''Qty'', JString ''four'')], processingStatus = COMPLETED\<rparr>,
      \<lparr>row_id = ''c'', cells = [(''Name'', JNumber 7), (''Qty'', JNull)], processingStatus = INCOMPLETE\<rparr>]"

text \<open>A column of digit strings longer than five characters.\<close>

definition barcodeRows :: "ProductRow list" where
  "barcodeRows =
     [\<lparr>row_id = ''r1'', cells = [(''Ref'', JString ''1234567'')], processingStatus = INCOMPLETE\<rparr>]"

text \<open>Four candidate columns holding the same value in every row.\<close>

definition priorityRows :: "ProductRow list" where
  "priorityRows =
     [\<lparr>row_id = ''r1'',
       cells = [(''Classification Data Code'', JString ''Widget''), (''Description'', JString ''Widget''),
                (''Product Name'', JString ''Widget''), (''Name'', JString ''Widget'')],
       processingStatus = INCOMPLETE\<rparr>]"

text \<open>A mostly numeric SKU column with one free-text entry, beside an all-numeric column.\<close>

definition skuRows :: "ProductRow list" where
  "skuRows =
     [\<lparr>row_id = ''r1'', cells = [(''SKU'', JNumber 1001), (''Amount'', JNumber 1)], processingStatus = INCOMPLETE\<rparr>,
      \<lparr>row_id = ''r2'', cells = [(''SKU'', JNumber 1002), (''Amount'', JNumber 2)], processingStatus = INCOMPLETE\<rparr>,
      \<lparr>row_id = ''r3'', cells = [(''SKU'', JNumber 1003), (''Amount'', JNumber 3)], processingStatus = INCOMPLETE\<rparr>,
      \<lparr>row_id = ''r4'', cells = [(''SKU'', JNumber 1004), (''Amount'', JNumber 4)], processingStatus = INCOMPLETE\<rparr>,
      \<lparr>row_id = ''r5'', cells = [(''SKU'', JString ''AB 123456''), (''Amount'', JNumber 5)], processingStatus = INCOMPLETE\<rparr>]"

text \<open>A numeric Price column beside a Name column.\<close>

definition priceRows :: "ProductRow list" where
  "priceRows =
     [\<lparr>row_id = ''r1'', cells = [(''Price'', JNumber 10), (''SKU'', JString ''0042''), (''Name'', JString ''Bolt'')],
       processingStatus = INCOMPLETE\<rparr>]"

text \<open>Group values that are null, blank, empty and missing.\<close>

definition blankRows :: "ProductRow list" where
  "blankRows =
     [\<lparr>row_id = ''r1'', cells = [(''Unit'', JNull)], processingStatus = INCOMPLETE\<rparr>,
      \<lparr>row_id = ''r2'', cells = [(''Unit'', JString ''  '')], processingStatus = INCOMPLETE\<rparr>,
      \<lparr>row_id = ''r3'', cells = [(''Unit'', JString '''')], processingStatus = INCOMPLETE\<rparr>,
      \<lparr>row_id = ''r4'', cells = [], processingStatus = INCOMPLETE\<rparr>]"

text \<open>Two uploaded files; the first holds the example rows.\<close>

definition twoFiles :: "FileSession list" where
  "twoFiles =
     [\<lparr>file_id = ''file-1'', file_name = ''stock.xlsx'', createdAt = 1700000000000, file_data = widgetRows\<rparr>,
      \<lparr>file_id = ''file-2'', file_name = ''other.csv'', createdAt = 1700000000500, file_data = tieRows\<rparr>]"

section \<open>Name-column inference: the winner of the stable sort\<close>

lemma hd_sort_key_first_min:
  fixes f :: "'a \<Rightarrow> int"
  assumes "sort_key f xs = e # es"
  shows "\<exists>i<length xs. xs ! i = e \<and> (\<forall>j<length xs. f e \<le> f (xs ! j)) \<and> (\<forall>j<i. f e < f (xs ! j))"
proof -
  have srt: "sorted (map f (e # es))"
    using sorted_sort_key [of f xs] assms by simp
  have sets: "set xs = set (e # es)"
    using set_sort [of f xs] assms by simp
  have low: "f e \<le> f y" if "y \<in> set xs" for y
    using srt sets that by auto
  have "filter (\<lambda>y. f y = f e) xs = filter (\<lambda>y. f y = f e) (e # es)"
    using sort_key_stable [of f "f e" xs] assms by simp
  then have "filter (\<lambda>y. f y = f e) xs = e # filter (\<lambda>y. f y = f e) es"
    by simp
  then obtain us vs where xs: "xs = us @ e # vs" and us: "\<forall>u\<in>set us. f u \<noteq> f e"
    by (auto simp: filter_eq_Cons_iff)
  have i: "length us < length xs" "xs ! length us = e"
    using xs by simp_all
  have "f e < f (xs ! j)" if "j < length us" for j
  proof -
    have m: "xs ! j \<in> set us" using that xs by (simp add: nth_append)
    then have "xs ! j \<in> set xs" using xs by auto
    with low have "f e \<le> f (xs ! j)" by blast
    moreover have "f (xs ! j) \<noteq> f e" using us m by blast
    ultimately show ?thesis by simp
  qed
  moreover have "\<forall>j<length xs. f e \<le> f (xs ! j)"
    using low by simp
  ultimately show ?thesis using i by blast
qed

lemma header_scoreHeader: "header (scoreHeader data h) = h"
  by (simp add: scoreHeader_def Let_def)

lemma detectedNameCol_first_max:
  assumes "hs \<noteq> []"
  shows "\<exists>i<length hs. detectedNameCol hs data = Inr (hs ! i)
           \<and> (\<forall>j<length hs. score (scoreHeader data (hs ! j)) \<le> score (scoreHeader data (hs ! i)))
           \<and> (\<forall>j<i. score (scoreHeader data (hs ! j)) < score (scoreHeader data (hs ! i)))"
proof -
  let ?f = "\<lambda>e. - score e"
  let ?xs = "map (scoreHeader data) hs"
  have "length (sort_key ?f ?xs) = length hs" by simp
  with assms obtain e es where srt: "sort_key ?f ?xs = e # es"
    by (cases "sort_key ?f ?xs") auto
  from hd_sort_key_first_min [OF srt]
  obtain i where i: "i < length ?xs" "?xs ! i = e"
    and all: "\<forall>j<length ?xs. ?f e \<le> ?f (?xs ! j)"
    and before: "\<forall>j<i. ?f e < ?f (?xs ! j)" by blast
  have e: "e = scoreHeader data (hs ! i)" using i by simp
  have res: "detectedNameCol hs data = Inr (hs ! i)"
    using assms srt e by (simp add: detectedNameCol_def header_scoreHeader)
  have a: "\<forall>j<length hs. score (scoreHeader data (hs ! j)) \<le> score (scoreHeader data (hs ! i))"
    using all e by simp
  have b: "\<forall>j<i. score (scoreHeader data (hs ! j)) < score (scoreHeader data (hs ! i))"
    using before e i by simp
  show ?thesis using i res a b by auto
qed

lemma detectedNameCol_maximal:
  assumes "detectedNameCol hs data = Inr w" and "h \<in> set hs"
  shows "score (scoreHeader data h) \<le> score (scoreHeader data w)"
proof -
  from assms(2) have ne: "hs \<noteq> []" by auto
  from detectedNameCol_first_max [OF ne, of data] obtain i where
    i: "i < length hs" "detectedNameCol hs data = Inr (hs ! i)"
    and all: "\<forall>j<length hs. score (scoreHeader data (hs ! j)) \<le> score (scoreHeader data (hs ! i))"
    by blast
  from i assms(1) have w: "w = hs ! i" by simp
  from assms(2) obtain j where "j < length hs" "hs ! j = h"
    by (auto simp: in_set_conv_nth)
  with all w show ?thesis by auto
qed

text \<open>
  C5. For a non-empty header list the inference returns a header of maximal score, and
  every header before it in the list has a strictly smaller score: among the headers that
  attain the maximal score it returns the earliest one.
\<close>

theorem tie_break_earliest:
  assumes "hs \<noteq> []"
  shows "\<exists>i<length hs. detectedNameCol hs data = Inr (hs ! i)
           \<and> (\<forall>j<length hs. score (scoreHeader data (hs ! j)) \<le> score (scoreHeader data (hs ! i)))
           \<and> (\<forall>j<i. score (scoreHeader data (hs ! j)) < score (scoreHeader data (hs ! i)))"
  using assms by (rule detectedNameCol_first_max)

theorem tie_break_earliest_witness:
  "[''Unit'', ''Kind''] \<noteq> []
   \<and> score (scoreHeader tieRows ''Unit'') = score (scoreHeader tieRows ''Kind'')
   \<and> detectedNameCol [''Unit'', ''Kind''] tieRows = Inr ''Unit''"
proof -
  let ?hs = "[''Unit'', ''Kind'']"
  have ne: "?hs \<noteq> []" by simp
  have eq: "score (scoreHeader tieRows ''Unit'') = score (scoreHeader tieRows ''Kind'')"
    by code_simp
  from tie_break_earliest [OF ne, of tieRows] obtain i where
    i: "i < length ?hs" and res: "detectedNameCol ?hs tieRows = Inr (?hs ! i)"
    and before: "\<forall>j<i. score (scoreHeader tieRows (?hs ! j)) < score (scoreHeader tieRows (?hs ! i))"
    by blast
  have "i = 0"
  proof (rule ccontr)
    assume "i \<noteq> 0"
    with i have i1: "i = 1" by simp
    with before have "score (scoreHeader tieRows (?hs ! 0)) < score (scoreHeader tieRows (?hs ! 1))"
      by simp
    with eq show False by simp
  qed
  with res have "detectedNameCol ?hs tieRows = Inr ''Unit''" by simp
  with ne eq show ?thesis by simp
qed

text \<open>
  C7. The inference is total: for an empty header list it returns the empty string, and for
  a non-empty header list it returns one of the headers, whatever the rows hold (missing
  keys, mixed types, empty strings); the TypeError of \<open>scores[0]\<close> is never raised.
\<close>

theorem detectedNameCol_total:
  "(hs = [] \<longrightarrow> detectedNameCol hs data = Inr '''')
   \<and> (hs \<noteq> [] \<longrightarrow> (\<exists>h\<in>set hs. detectedNameCol hs data = Inr h))"
proof (cases "hs = []")
  case True
  then show ?thesis by (simp add: detectedNameCol_def)
next
  case False
  from detectedNameCol_first_max [OF False, of data] obtain i where
    "i < length hs" "detectedNameCol hs data = Inr (hs ! i)" by blast
  then have "\<exists>h\<in>set hs. detectedNameCol hs data = Inr h"
    using nth_mem by blast
  with False show ?thesis by simp
qed

theorem detectedNameCol_total_witness:
  "detectedNameCol [] raggedRows = Inr ''''
   \<and> [''Name'', ''Qty''] \<noteq> []
   \<and> detectedNameCol [''Name'', ''Qty''] raggedRows = Inr ''Name''"
proof -
  have a: "detectedNameCol [] raggedRows = Inr ''''"
    using detectedNameCol_total [of "[]" raggedRows] by simp
  have ne: "[''Name'', ''Qty''] \<noteq> []" by simp
  from detectedNameCol_total [of "[''Name'', ''Qty'']" raggedRows] ne
  obtain h where h: "h \<in> set [''Name'', ''Qty'']" "detectedNameCol [''Name'', ''Qty''] raggedRows = Inr h"
    by blast
  have "detectedNameCol [''Name'', ''Qty''] raggedRows \<noteq> Inr ''Qty''"
    by code_simp
  with h have "detectedNameCol [''Name'', ''Qty''] raggedRows = Inr ''Name''" by auto
  with a ne show ?thesis by simp
qed

section \<open>Name-column inference: the score of a header\<close>

lemma foldl_tally_counts:
  "numberCount (foldl tally c vals) = numberCount c + length (filter numericValue vals)
   \<and> hasSpacesCount (foldl tally c vals)
       = hasSpacesCount c + length (filter (textWith (\<lambda>s. includes_str s '' '')) vals)
   \<and> longStringCount (foldl tally c vals)
       = longStringCount c + length (filter (textWith (\<lambda>s. length s > 5)) vals)"
proof (induction vals arbitrary: c)
  case Nil
  show ?case by simp
next
  case (Cons v vals)
  show ?case
    by (cases v) (simp_all add: Cons.IH textWith_def Let_def)
qed

lemma filter_empty_list_ex: "(filter P xs = []) = (\<not> list_ex P xs)"
  by (induction xs) simp_all

lemma shapeScore_foldl:
  "shapeScore (foldl tally zeroCounters vals) (length vals) = contentShape_text vals"
  by (simp add: shapeScore_def contentShape_text_def mostlyNumeric_def foldl_tally_counts
      zeroCounters_def filter_empty_list_ex Let_def)

lemma length_sampleColumn: "length (sampleColumn data h) = sampleSize data"
  by (simp add: sampleColumn_def sampleSize_def)

lemma score_scoreHeader:
  "score (scoreHeader data h) = headerScore (toLowerCase h) + contentShape_text (sampleColumn data h)"
  using shapeScore_foldl [of "sampleColumn data h"]
  by (simp add: scoreHeader_def Let_def length_sampleColumn)

lemma contentShape_text_lower: "- 200 \<le> contentShape_text vals"
  by (simp add: contentShape_text_def)

lemma contentShape_text_upper:
  "mostlyNumeric vals \<Longrightarrow> contentShape_text vals \<le> - 120"
  by (simp add: contentShape_text_def)

lemma contentShape_text_no_space:
  "mostlyNumeric vals \<Longrightarrow> \<not> list_ex (textWith (\<lambda>s. includes_str s '' '')) vals
     \<Longrightarrow> contentShape_text vals \<le> - 170"
  by (simp add: contentShape_text_def)

lemma contentShape_text_nonneg:
  "\<not> mostlyNumeric vals \<Longrightarrow> 0 \<le> contentShape_text vals"
  by (simp add: contentShape_text_def)

lemma headerScore_price: "headerScore (toLowerCase ''Price'') = - 100"
  by code_simp

lemma headerScore_sku: "headerScore (toLowerCase ''SKU'') = - 50"
  by code_simp

text \<open>
  C4 (amended). Over the values of the column in the first five rows (fewer when the data
  has fewer rows), the content-shape part of the score is: -200 when more than 60 percent of
  the sampled values are numeric, plus a flat 50 when some sampled string that is not
  numeric contains a space, plus a flat 30 when some sampled string that is not numeric is
  longer than 5 characters. A string of digits counts as numeric only.
\<close>

theorem content_shape_score:
  "sampleColumn data h = map (\<lambda>row. row_get row h) (take 5 data)
   \<and> score (scoreHeader data h) - headerScore (toLowerCase h)
       = (if 5 * length (filter numericValue (sampleColumn data h)) > 3 * length (sampleColumn data h)
          then - 200 else 0)
         + (if list_ex (textWith (\<lambda>s. includes_str s '' '')) (sampleColumn data h) then 50 else 0)
         + (if list_ex (textWith (\<lambda>s. length s > 5)) (sampleColumn data h) then 30 else 0)"
proof -
  have "take (min (length data) 5) data = take 5 data"
    by (cases "length data \<le> 5") (simp_all add: min_def)
  then have "sampleColumn data h = map (\<lambda>row. row_get row h) (take 5 data)"
    by (simp add: sampleColumn_def sampleSize_def)
  then show ?thesis
    by (simp add: score_scoreHeader contentShape_text_def mostlyNumeric_def)
qed

theorem content_shape_score_witness:
  "score (scoreHeader widgetRows ''Name'') - headerScore (toLowerCase ''Name'') = 80
   \<and> score (scoreHeader widgetRows ''Price'') - headerScore (toLowerCase ''Price'') = - 200
   \<and> score (scoreHeader barcodeRows ''Ref'') - headerScore (toLowerCase ''Ref'') = - 200"
proof -
  have a: "score (scoreHeader widgetRows ''Name'') - headerScore (toLowerCase ''Name'') = 80"
    unfolding content_shape_score [of widgetRows "''Name''", THEN conjunct2] by code_simp
  have b: "score (scoreHeader widgetRows ''Price'') - headerScore (toLowerCase ''Price'') = - 200"
    unfolding content_shape_score [of widgetRows "''Price''", THEN conjunct2] by code_simp
  have c: "score (scoreHeader barcodeRows ''Ref'') - headerScore (toLowerCase ''Ref'') = - 200"
    unfolding content_shape_score [of barcodeRows "''Ref''", THEN conjunct2] by code_simp
  from a b c show ?thesis by simp
qed

theorem content_shape_spec_counterexample:
  "score (scoreHeader barcodeRows ''Ref'') - headerScore (toLowerCase ''Ref'')
     \<noteq> contentShape_spec (sampleColumn barcodeRows ''Ref'')"
  by code_simp

text \<open>
  C1 (amended). When the four columns hold the same sampled values, "Description" scores
  higher than "Product Name", which scores higher than "Name", which scores higher than
  "Classification Data Code": that header earns 100 and loses 50 for containing "code".
\<close>

theorem header_priority:
  assumes "sampleColumn data ''Product Name'' = sampleColumn data ''Description''"
    and "sampleColumn data ''Name'' = sampleColumn data ''Description''"
    and "sampleColumn data ''Classification Data Code'' = sampleColumn data ''Description''"
  shows "score (scoreHeader data ''Description'') > score (scoreHeader data ''Product Name'')
         \<and> score (scoreHeader data ''Product Name'') > score (scoreHeader data ''Name'')
         \<and> score (scoreHeader data ''Name'') > score (scoreHeader data ''Classification Data Code'')"
proof -
  have d: "headerScore (toLowerCase ''Description'') = 80" by code_simp
  have p: "headerScore (toLowerCase ''Product Name'') = 70" by code_simp
  have n: "headerScore (toLowerCase ''Name'') = 60" by code_simp
  have c: "headerScore (toLowerCase ''Classification Data Code'') = 50" by code_simp
  show ?thesis
    unfolding score_scoreHeader assms d p n c by simp
qed

theorem header_priority_witness:
  "sampleColumn priorityRows ''Product Name'' = sampleColumn priorityRows ''Description''
   \<and> sampleColumn priorityRows ''Name'' = sampleColumn priorityRows ''Description''
   \<and> sampleColumn priorityRows ''Classification Data Code'' = sampleColumn priorityRows ''Description''
   \<and> score (scoreHeader priorityRows ''Description'') > score (scoreHeader priorityRows ''Product Name'')
   \<and> score (scoreHeader priorityRows ''Product Name'') > score (scoreHeader priorityRows ''Name'')
   \<and> score (scoreHeader priorityRows ''Name'') > score (scoreHeader priorityRows ''Classification Data Code'')"
proof -
  have a: "sampleColumn priorityRows ''Product Name'' = sampleColumn priorityRows ''Description''"
    by code_simp
  have b: "sampleColumn priorityRows ''Name'' = sampleColumn priorityRows ''Description''"
    by code_simp
  have c: "sampleColumn priorityRows ''Classification Data Code'' = sampleColumn priorityRows ''Description''"
    by code_simp
  from header_priority [OF a b c] a b c show ?thesis by simp
qed

theorem header_priority_counterexample:
  "sampleColumn priorityRows ''Classification Data Code'' = sampleColumn priorityRows ''Description''
   \<and> \<not> score (scoreHeader priorityRows ''Classification Data Code'')
         > score (scoreHeader priorityRows ''Description'')"
  by code_simp

text \<open>
  C3 (amended). Let some header of the list have a non-negative header-text score. A header
  "Price" whose sampled values are more than 60 percent numeric is never selected. A header
  "SKU" whose sampled values are more than 60 percent numeric is never selected when no
  sampled non-numeric string of the SKU column contains a space, or when the sampled values
  of the alternative header are not more than 60 percent numeric.
\<close>

theorem penalty_dominance:
  assumes "alt \<in> set hs" and "0 \<le> headerScore (toLowerCase alt)"
  shows "(mostlyNumeric (sampleColumn data ''Price'') \<longrightarrow> detectedNameCol hs data \<noteq> Inr ''Price'')
         \<and> (mostlyNumeric (sampleColumn data ''SKU'')
              \<and> (\<not> list_ex (textWith (\<lambda>s. includes_str s '' '')) (sampleColumn data ''SKU'')
                    \<or> \<not> mostlyNumeric (sampleColumn data alt))
              \<longrightarrow> detectedNameCol hs data \<noteq> Inr ''SKU'')"
proof -
  have alt_low: "- 200 \<le> score (scoreHeader data alt)"
    using assms(2) contentShape_text_lower [of "sampleColumn data alt"]
    by (simp add: score_scoreHeader)
  have price: "detectedNameCol hs data \<noteq> Inr ''Price''"
    if num: "mostlyNumeric (sampleColumn data ''Price'')"
  proof
    assume sel: "detectedNameCol hs data = Inr ''Price''"
    from detectedNameCol_maximal [OF sel assms(1)]
    have "score (scoreHeader data alt) \<le> score (scoreHeader data ''Price'')" .
    moreover have "score (scoreHeader data ''Price'') \<le> - 220"
      using contentShape_text_upper [OF num]
      by (simp add: score_scoreHeader headerScore_price)
    ultimately show False using alt_low by simp
  qed
  have sku: "detectedNameCol hs data \<noteq> Inr ''SKU''"
    if num: "mostlyNumeric (sampleColumn data ''SKU'')"
      and alt: "\<not> list_ex (textWith (\<lambda>s. includes_str s '' '')) (sampleColumn data ''SKU'')
                \<or> \<not> mostlyNumeric (sampleColumn data alt)"
  proof
    assume sel: "detectedNameCol hs data = Inr ''SKU''"
    from detectedNameCol_maximal [OF sel assms(1)]
    have le: "score (scoreHeader data alt) \<le> score (scoreHeader data ''SKU'')" .
    from alt show False
    proof
      assume "\<not> list_ex (textWith (\<lambda>s. includes_str s '' '')) (sampleColumn data ''SKU'')"
      from contentShape_text_no_space [OF num this]
      have "score (scoreHeader data ''SKU'') \<le> - 220"
        by (simp add: score_scoreHeader headerScore_sku)
      with le alt_low show False by simp
    next
      assume "\<not> mostlyNumeric (sampleColumn data alt)"
      from contentShape_text_nonneg [OF this] assms(2)
      have "0 \<le> score (scoreHeader data alt)"
        by (simp add: score_scoreHeader)
      moreover have "score (scoreHeader data ''SKU'') \<le> - 170"
        using contentShape_text_upper [OF num]
        by (simp add: score_scoreHeader headerScore_sku)
      ultimately show False using le by simp
    qed
  qed
  from price sku show ?thesis by blast
qed

theorem penalty_dominance_witness:
  "''Name'' \<in> set (headers priceRows) \<and> 0 \<le> headerScore (toLowerCase ''Name'')
   \<and> mostlyNumeric (sampleColumn priceRows ''Price'')
   \<and> mostlyNumeric (sampleColumn priceRows ''SKU'')
   \<and> \<not> list_ex (textWith (\<lambda>s. includes_str s '' '')) (sampleColumn priceRows ''SKU'')
   \<and> detectedNameCol (headers priceRows) priceRows \<noteq> Inr ''Price''
   \<and> detectedNameCol (headers priceRows) priceRows \<noteq> Inr ''SKU''"
proof -
  have a: "''Name'' \<in> set (headers priceRows)" by code_simp
  have b: "0 \<le> headerScore (toLowerCase ''Name'')" by code_simp
  have c: "mostlyNumeric (sampleColumn priceRows ''Price'')" by code_simp
  have d: "mostlyNumeric (sampleColumn priceRows ''SKU'')" by code_simp
  have e: "\<not> list_ex (textWith (\<lambda>s. includes_str s '' '')) (sampleColumn priceRows ''SKU'')"
    by code_simp
  from penalty_dominance [OF a b, of priceRows] a b c d e show ?thesis by simp
qed

theorem penalty_dominance_counterexample:
  "''SKU'' \<in> set (headers skuRows) \<and> ''Amount'' \<in> set (headers skuRows)
   \<and> 0 \<le> headerScore (toLowerCase ''Amount'')
   \<and> mostlyNumeric (sampleColumn skuRows ''SKU'')
   \<and> detectedNameCol (headers skuRows) skuRows = Inr ''SKU''"
  by code_simp

section \<open>Tag derivation\<close>

lemma foldl_countRow:
  "distinct (map fst (foldl (countRow col) [] data))
   \<and> (\<forall>t. map_of (foldl (countRow col) [] data) t
          = (if t \<noteq> [] \<and> 0 < length (filter (\<lambda>row. groupValue row col = t) data)
             then Some (length (filter (\<lambda>row. groupValue row col = t) data)) else None))"
proof (induction data rule: rev_induct)
  case Nil
  show ?case by simp
next
  case (snoc row data)
  let ?cs = "foldl (countRow col) [] data"
  let ?v = "groupValue row col"
  from snoc have d: "distinct (map fst ?cs)"
    and m: "\<And>t. map_of ?cs t
          = (if t \<noteq> [] \<and> 0 < length (filter (\<lambda>row. groupValue row col = t) data)
             then Some (length (filter (\<lambda>row. groupValue row col = t) data)) else None)"
    by simp_all
  show ?case
  proof (cases "?v = []")
    case True
    then have "foldl (countRow col) [] (data @ [row]) = ?cs"
      by (simp add: countRow_def)
    with d m True show ?thesis by auto
  next
    case False
    have g: "counts_get ?cs ?v = length (filter (\<lambda>row. groupValue row col = ?v) data)"
      using False by (simp add: counts_get_def m)
    have step: "foldl (countRow col) [] (data @ [row])
                = AList.update ?v (length (filter (\<lambda>row. groupValue row col = ?v) data) + 1) ?cs"
      using False g by (simp add: countRow_def Let_def)
    have "distinct (map fst (foldl (countRow col) [] (data @ [row])))"
      unfolding step using d by (rule distinct_update)
    moreover have "\<forall>t. map_of (foldl (countRow col) [] (data @ [row])) t
          = (if t \<noteq> [] \<and> 0 < length (filter (\<lambda>r. groupValue r col = t) (data @ [row]))
             then Some (length (filter (\<lambda>r. groupValue r col = t) (data @ [row]))) else None)"
      unfolding step using False by (auto simp: update_conv' m)
    ultimately show ?thesis by blast
  qed
qed

lemma tags_set:
  assumes "col \<noteq> []"
  shows "set (tags data col) = (\<lambda>(t, n). \<lparr>tag = t, count = n\<rparr>) ` set (foldl (countRow col) [] data)"
  using assms by (simp add: tags_def Let_def)

lemma tags_distinct:
  "distinct (map tag (tags data col))"
proof (cases "col = []")
  case True
  then show ?thesis by (simp add: tags_def)
next
  case False
  let ?cs = "foldl (countRow col) [] data"
  have "map tag (tags data col) = map fst (sort_key (\<lambda>(t, n). - int n) ?cs)"
    using False by (simp add: tags_def Let_def case_prod_beta comp_def)
  moreover have "distinct (map fst (sort_key (\<lambda>(t, n). - int n) ?cs))"
    using foldl_countRow [of col data] by (simp add: distinct_map)
  ultimately show ?thesis by simp
qed

lemma tags_member:
  assumes "col \<noteq> []"
  shows "(e \<in> set (tags data col))
         = (tag e \<noteq> [] \<and> 0 < count e
            \<and> count e = length (filter (\<lambda>row. groupValue row col = tag e) data))"
proof -
  let ?cs = "foldl (countRow col) [] data"
  have e: "\<lparr>tag = tag e, count = count e\<rparr> = e" by simp
  have "(e \<in> set (tags data col)) = ((tag e, count e) \<in> set ?cs)"
  proof
    assume "e \<in> set (tags data col)"
    then obtain t n where "(t, n) \<in> set ?cs" "e = \<lparr>tag = t, count = n\<rparr>"
      unfolding tags_set [OF assms] by auto
    then show "(tag e, count e) \<in> set ?cs" by simp
  next
    assume "(tag e, count e) \<in> set ?cs"
    then have "(\<lambda>(t, n). \<lparr>tag = t, count = n\<rparr>) (tag e, count e) \<in> set (tags data col)"
      unfolding tags_set [OF assms] by (rule imageI)
    then show "e \<in> set (tags data col)" by (simp add: e)
  qed
  also have "\<dots> = (map_of ?cs (tag e) = Some (count e))"
  proof -
    have "distinct (map fst ?cs)"
      using foldl_countRow [of col data] by blast
    then show ?thesis by simp
  qed
  also have "\<dots> = (tag e \<noteq> [] \<and> 0 < count e
            \<and> count e = length (filter (\<lambda>row. groupValue row col = tag e) data))"
  proof -
    have m: "map_of ?cs (tag e)
          = (if tag e \<noteq> [] \<and> 0 < length (filter (\<lambda>row. groupValue row col = tag e) data)
             then Some (length (filter (\<lambda>row. groupValue row col = tag e) data)) else None)"
      using foldl_countRow [of col data] by blast
    show ?thesis unfolding m by (cases "count e") auto
  qed
  finally show ?thesis .
qed

lemma tagCount_found:
  "distinct (map tag ts) \<Longrightarrow> e \<in> set ts \<Longrightarrow> tagCount ts (tag e) = count e"
proof (induction ts)
  case Nil
  then show ?case by simp
next
  case (Cons a ts)
  show ?case
  proof (cases "e = a")
    case True
    from Cons.prems have "tag a \<notin> tag ` set ts" by simp
    then have "\<forall>x\<in>set ts. tag x \<noteq> tag a" by (metis imageI)
    then have "filter (\<lambda>x. tag x = tag a) ts = []"
      by (simp add: filter_empty_conv)
    with True show ?thesis by (simp add: tagCount_def)
  next
    case False
    with Cons.prems have "e \<in> set ts" "tag a \<noteq> tag e" by auto
    with Cons show ?thesis by (simp add: tagCount_def)
  qed
qed

lemma tagCount_absent:
  "t \<notin> tag ` set ts \<Longrightarrow> tagCount ts t = 0"
  by (induction ts) (auto simp: tagCount_def)

lemma groupValue_cases:
  "groupValue row col
     = (if nullish (row_get row col) then ''N/A'' else trim (String_val (row_get row col)))"
  by (simp add: groupValue_def nullish_def Let_def)

text \<open>
  C2 (amended). For a set (non-empty) group-by column, the group value of a row is "N/A"
  when the cell is null or undefined and the trimmed string of the cell otherwise. Every
  tag is listed once, a tag is listed exactly when it is non-empty and some row has it as
  group value, and its count is the number of rows with that group value. So the "N/A" tag
  counts the rows whose cell is null or undefined together with the rows whose text is
  "N/A", and a row whose cell is empty after trimming is counted under no tag.
\<close>

theorem tags_buckets:
  assumes "classifyCol \<noteq> []"
  shows "distinct (map tag (tags data classifyCol))
         \<and> (t \<in> tag ` set (tags data classifyCol)
              \<longleftrightarrow> t \<noteq> [] \<and> (\<exists>row\<in>set data. groupValue row classifyCol = t))
         \<and> tagCount (tags data classifyCol) t
             = (if t = [] then 0
                else length (filter (\<lambda>row. groupValue row classifyCol = t) data))
         \<and> groupValue row classifyCol
             = (if nullish (row_get row classifyCol) then ''N/A''
                else trim (String_val (row_get row classifyCol)))"
proof -
  let ?n = "length (filter (\<lambda>row. groupValue row classifyCol = t) data)"
  have pos: "(0 < ?n) = (\<exists>row\<in>set data. groupValue row classifyCol = t)"
    by (simp add: filter_empty_conv)
  have listed: "(t \<in> tag ` set (tags data classifyCol)) = (t \<noteq> [] \<and> 0 < ?n)"
  proof
    assume "t \<in> tag ` set (tags data classifyCol)"
    then obtain e where "e \<in> set (tags data classifyCol)" "tag e = t" by auto
    then show "t \<noteq> [] \<and> 0 < ?n"
      using tags_member [OF assms, of e data] by auto
  next
    assume a: "t \<noteq> [] \<and> 0 < ?n"
    then have "\<lparr>tag = t, count = ?n\<rparr> \<in> set (tags data classifyCol)"
      using tags_member [OF assms, of "\<lparr>tag = t, count = ?n\<rparr>" data] by simp
    then have "tag \<lparr>tag = t, count = ?n\<rparr> \<in> tag ` set (tags data classifyCol)"
      by (rule imageI)
    then show "t \<in> tag ` set (tags data classifyCol)" by simp
  qed
  have cnt: "tagCount (tags data classifyCol) t = (if t = [] then 0 else ?n)"
  proof (cases "t \<in> tag ` set (tags data classifyCol)")
    case True
    then obtain e where e: "e \<in> set (tags data classifyCol)" "tag e = t" by auto
    from tagCount_found [OF tags_distinct e(1)] e(2)
    have "tagCount (tags data classifyCol) t = count e" by simp
    moreover have "count e = ?n" "t \<noteq> []"
      using tags_member [OF assms, of e data] e by auto
    ultimately show ?thesis by simp
  next
    case False
    then have "tagCount (tags data classifyCol) t = 0" by (rule tagCount_absent)
    moreover from False listed have "t = [] \<or> ?n = 0" by auto
    ultimately show ?thesis by auto
  qed
  from tags_distinct listed pos cnt groupValue_cases show ?thesis by simp
qed

theorem tags_buckets_witness:
  "''Unit'' \<noteq> []
   \<and> tags widgetRows ''Unit'' = [\<lparr>tag = ''box'', count = 2\<rparr>, \<lparr>tag = ''case'', count = 1\<rparr>]
   \<and> tagCount (tags widgetRows ''Unit'') ''box'' = 2
   \<and> tagCount (tags blankRows ''Unit'') ''N/A'' = 2
   \<and> tagCount (tags blankRows ''Unit'') [] = 0"
proof -
  have ne: "''Unit'' \<noteq> []" by simp
  have l: "tags widgetRows ''Unit'' = [\<lparr>tag = ''box'', count = 2\<rparr>, \<lparr>tag = ''case'', count = 1\<rparr>]"
    by code_simp
  have a: "tagCount (tags widgetRows ''Unit'') ''box'' = 2"
    unfolding tags_buckets [OF ne, of widgetRows "''box''", THEN conjunct2, THEN conjunct2, THEN conjunct1]
    by code_simp
  have b: "tagCount (tags blankRows ''Unit'') ''N/A'' = 2"
    unfolding tags_buckets [OF ne, of blankRows "''N/A''", THEN conjunct2, THEN conjunct2, THEN conjunct1]
    by code_simp
  have c: "tagCount (tags blankRows ''Unit'') [] = 0"
    unfolding tags_buckets [OF ne, of blankRows "[]", THEN conjunct2, THEN conjunct2, THEN conjunct1]
    by simp
  from ne l a b c show ?thesis by simp
qed

theorem tags_blank_counterexample:
  "tagCount (tags blankRows ''Unit'') ''N/A''
     \<noteq> length (filter (\<lambda>row. blankValue (row_get row ''Unit'')) blankRows)"
  by code_simp

section \<open>Filter evaluation\<close>

lemma includes_str_empty: "includes_str s []"
  by (cases s) simp_all

lemma Object_values_id: "JString (row_id row) \<in> set (Object_values row)"
  by (simp add: Object_values_def Object_entries_def)

lemma Object_values_status:
  "JString (statusString (processingStatus row)) \<in> set (Object_values row)"
  by (simp add: Object_values_def Object_entries_def)

lemma matchesSearch_iff:
  "matchesSearch S row
     = (S = [] \<or> (\<exists>v\<in>set (Object_values row).
                     includes_str (toLowerCase (String_val v)) (toLowerCase S)))"
proof (cases "S = []")
  case True
  have "includes_str (toLowerCase (String_val (JString (row_id row)))) (toLowerCase [])"
    by (simp add: toLowerCase_def includes_str_empty)
  with Object_values_id [of row] True show ?thesis
    unfolding matchesSearch_def list_ex_iff by blast
next
  case False
  then show ?thesis by (simp add: matchesSearch_def list_ex_iff)
qed

lemma matchesTag_iff:
  "activeTag \<noteq> Some [] \<Longrightarrow>
   matchesTag activeTag col row = (activeTag = None \<or> activeTag = Some (groupValue row col))"
  by (cases activeTag) (auto simp: matchesTag_def)

lemma matchesTag_empty_string: "matchesTag (Some []) col row"
  by (simp add: matchesTag_def)

lemma headers_not_reserved:
  "''id'' \<notin> set (headers data) \<and> ''processingStatus'' \<notin> set (headers data)"
  by (cases data) (simp_all add: headers_def)

text \<open>
  C6. For an active tag that is null or a non-empty string (the empty string is never a
  tag), the filtered view keeps, in order, exactly the rows that match the search text
  (the text is empty, or some field value, stringified and lower-cased, contains the
  lower-cased text) and match the tag (no tag is active, or the normalized group value
  equals the tag): it is the intersection of the two sets of rows. With an empty search
  text and no tag it is the whole row collection.
\<close>

theorem filter_conjunction:
  assumes "activeTag \<noteq> Some []"
  shows "filteredData data S activeTag col
           = filter (\<lambda>row. (S = [] \<or> (\<exists>v\<in>set (Object_values row).
                                includes_str (toLowerCase (String_val v)) (toLowerCase S)))
                         \<and> (activeTag = None \<or> activeTag = Some (groupValue row col))) data
         \<and> set (filteredData data S activeTag col)
           = {row \<in> set data. S = [] \<or> (\<exists>v\<in>set (Object_values row).
                                includes_str (toLowerCase (String_val v)) (toLowerCase S))}
             \<inter> {row \<in> set data. activeTag = None \<or> activeTag = Some (groupValue row col)}
         \<and> filteredData data [] None col = data"
proof -
  have a: "filteredData data S activeTag col
           = filter (\<lambda>row. (S = [] \<or> (\<exists>v\<in>set (Object_values row).
                                includes_str (toLowerCase (String_val v)) (toLowerCase S)))
                         \<and> (activeTag = None \<or> activeTag = Some (groupValue row col))) data"
    unfolding filteredData_def matchesSearch_iff matchesTag_iff [OF assms] ..
  have b: "set (filteredData data S activeTag col)
           = {row \<in> set data. S = [] \<or> (\<exists>v\<in>set (Object_values row).
                                includes_str (toLowerCase (String_val v)) (toLowerCase S))}
             \<inter> {row \<in> set data. activeTag = None \<or> activeTag = Some (groupValue row col)}"
    unfolding a by auto
  have c: "filteredData data [] None col = data"
    by (simp add: filteredData_def matchesSearch_iff matchesTag_def)
  from a b c show ?thesis by blast
qed

theorem filter_conjunction_witness:
  "Some ''case'' \<noteq> Some [] \<and> None \<noteq> Some ([] :: string)
   \<and> map row_id (filteredData widgetRows ''Widget'' None ''Unit'') = [''1'', ''2'']
   \<and> map row_id (filteredData widgetRows [] (Some ''case'') ''Unit'') = [''3'']
   \<and> filteredData widgetRows ''Widget'' (Some ''case'') ''Unit'' = []
   \<and> filteredData widgetRows [] None ''Unit'' = widgetRows"
proof -
  have t: "Some ''case'' \<noteq> Some []" and n: "None \<noteq> Some ([] :: string)" by simp_all
  have a: "map row_id (filteredData widgetRows ''Widget'' None ''Unit'') = [''1'', ''2'']"
    unfolding filter_conjunction [OF n, of widgetRows "''Widget''" "''Unit''", THEN conjunct1]
    by code_simp
  have b: "map row_id (filteredData widgetRows [] (Some ''case'') ''Unit'') = [''3'']"
    unfolding filter_conjunction [OF t, of widgetRows "[]" "''Unit''", THEN conjunct1]
    by code_simp
  have c: "filteredData widgetRows ''Widget'' (Some ''case'') ''Unit'' = []"
    unfolding filter_conjunction [OF t, of widgetRows "''Widget''" "''Unit''", THEN conjunct1]
    by code_simp
  have d: "filteredData widgetRows [] None ''Unit'' = widgetRows"
    using filter_conjunction [OF n, of widgetRows "[]" "''Unit''"] by blast
  from t n a b c d show ?thesis by blast
qed

lemma matchesSearch_fields:
  "matchesSearch S row
     = (includes_str (toLowerCase (row_id row)) (toLowerCase S)
        \<or> includes_str (toLowerCase (statusString (processingStatus row))) (toLowerCase S)
        \<or> (\<exists>(k, v)\<in>set (cells row).
              \<not> reservedKey k \<and> includes_str (toLowerCase (String_val v)) (toLowerCase S)))"
proof -
  have "matchesSearch S row
        = (includes_str (toLowerCase (row_id row)) (toLowerCase S)
           \<or> (\<exists>v\<in>set (map snd (filter (\<lambda>(k, v). \<not> reservedKey k) (cells row))).
                 includes_str (toLowerCase (String_val v)) (toLowerCase S))
           \<or> includes_str (toLowerCase (statusString (processingStatus row))) (toLowerCase S))"
    unfolding matchesSearch_def Object_values_def Object_entries_def list_ex_iff
    by (simp add: bex_Un) blast
  moreover have "(\<exists>v\<in>set (map snd (filter (\<lambda>(k, v). \<not> reservedKey k) (cells row))).
                 includes_str (toLowerCase (String_val v)) (toLowerCase S))
              = (\<exists>(k, v)\<in>set (cells row).
                   \<not> reservedKey k \<and> includes_str (toLowerCase (String_val v)) (toLowerCase S))"
    by force
  ultimately show ?thesis by blast
qed

lemma headers_Cons:
  "headers (row0 # rest) = map fst (filter (\<lambda>(k, v). \<not> reservedKey k) (cells row0))"
proof -
  have "filter (\<lambda>k. k \<noteq> ''id'' \<and> k \<noteq> ''processingStatus'') (map fst xs)
        = map fst (filter (\<lambda>(k, v). \<not> reservedKey k) xs)" for xs :: "(string \<times> jsval) list"
    by (induction xs) (auto simp: reservedKey_def)
  moreover have "filter (\<lambda>k. k \<noteq> ''id'' \<and> k \<noteq> ''processingStatus'')
                   (map fst (filter (\<lambda>(k, v). \<not> reservedKey k) xs))
                 = map fst (filter (\<lambda>(k, v). \<not> reservedKey k) xs)" for xs :: "(string \<times> jsval) list"
    by (induction xs) (auto simp: reservedKey_def)
  ultimately show ?thesis
    by (simp add: headers_def Object_keys_def Object_entries_def)
qed

text \<open>
  C10. The search predicate runs over the stringified values of all own properties of the
  row and over nothing else: a row is in the filtered view exactly when it is a row of the
  data, passes the tag test, and the search text, compared in lower case, occurs in its id,
  in its status text ("Incomplete" or "Completed"), or in the value of one of its cells.
  The headers are the cell keys of the first row, so \<open>id\<close> and \<open>processingStatus\<close> are
  searched although neither is a header: a text occurring only in the id or only in the
  status makes the row visible, and a text occurring in none of the three hides it.
\<close>

theorem search_covers_reserved_fields:
  "(row \<in> set (filteredData data searchTerm activeTag classifyCol))
     = (row \<in> set data \<and> matchesTag activeTag classifyCol row
        \<and> (includes_str (toLowerCase (row_id row)) (toLowerCase searchTerm)
           \<or> includes_str (toLowerCase (statusString (processingStatus row))) (toLowerCase searchTerm)
           \<or> (\<exists>(k, v)\<in>set (cells row).
                 \<not> reservedKey k
                 \<and> includes_str (toLowerCase (String_val v)) (toLowerCase searchTerm))))
   \<and> headers (row0 # rest) = map fst (filter (\<lambda>(k, v). \<not> reservedKey k) (cells row0))
   \<and> ''id'' \<notin> set (headers data) \<and> ''processingStatus'' \<notin> set (headers data)"
proof -
  have "(row \<in> set (filteredData data searchTerm activeTag classifyCol))
        = (row \<in> set data \<and> matchesSearch searchTerm row \<and> matchesTag activeTag classifyCol row)"
    by (simp add: filteredData_def)
  then have "(row \<in> set (filteredData data searchTerm activeTag classifyCol))
     = (row \<in> set data \<and> matchesTag activeTag classifyCol row
        \<and> (includes_str (toLowerCase (row_id row)) (toLowerCase searchTerm)
           \<or> includes_str (toLowerCase (statusString (processingStatus row))) (toLowerCase searchTerm)
           \<or> (\<exists>(k, v)\<in>set (cells row).
                 \<not> reservedKey k
                 \<and> includes_str (toLowerCase (String_val v)) (toLowerCase searchTerm))))"
    unfolding matchesSearch_fields by blast
  with headers_Cons [of row0 rest] headers_not_reserved [of data] show ?thesis by blast
qed

theorem search_covers_reserved_fields_witness:
  "''3'' \<noteq> []
   \<and> \<not> list_ex (\<lambda>(k, v). includes_str (toLowerCase (String_val v)) (toLowerCase ''3''))
         (cells (widgetRows ! 2))
   \<and> widgetRows ! 2 \<in> set (filteredData widgetRows ''3'' None ''Unit'')
   \<and> widgetRows ! 0 \<notin> set (filteredData widgetRows ''3'' None ''Unit'')
   \<and> widgetRows ! 1 \<notin> set (filteredData widgetRows ''3'' None ''Unit'')
   \<and> \<not> list_ex (\<lambda>(k, v). includes_str (toLowerCase (String_val v)) (toLowerCase ''Completed''))
         (cells (widgetRows ! 2))
   \<and> widgetRows ! 2 \<in> set (filteredData widgetRows ''Completed'' None ''Unit'')
   \<and> widgetRows ! 0 \<notin> set (filteredData widgetRows ''Completed'' None ''Unit'')
   \<and> widgetRows ! 0 \<in> set (filteredData widgetRows ''Widget A'' None ''Unit'')
   \<and> headers widgetRows = [''Name'', ''Price'', ''Unit'']"
proof -
  have a: "''3'' \<noteq> []" by simp
  have b: "\<not> list_ex (\<lambda>(k, v). includes_str (toLowerCase (String_val v)) (toLowerCase ''3''))
         (cells (widgetRows ! 2))" by code_simp
  have c: "widgetRows ! 2 \<in> set (filteredData widgetRows ''3'' None ''Unit'')"
    unfolding search_covers_reserved_fields
      [of "widgetRows ! 2" widgetRows "''3''" None "''Unit''", THEN conjunct1]
    by code_simp
  have d: "widgetRows ! 0 \<notin> set (filteredData widgetRows ''3'' None ''Unit'')"
    unfolding search_covers_reserved_fields
      [of "widgetRows ! 0" widgetRows "''3''" None "''Unit''", THEN conjunct1]
    by code_simp
  have e: "widgetRows ! 1 \<notin> set (filteredData widgetRows ''3'' None ''Unit'')"
    unfolding search_covers_reserved_fields
      [of "widgetRows ! 1" widgetRows "''3''" None "''Unit''", THEN conjunct1]
    by code_simp
  have f: "\<not> list_ex (\<lambda>(k, v). includes_str (toLowerCase (String_val v)) (toLowerCase ''Completed''))
         (cells (widgetRows ! 2))" by code_simp
  have g: "widgetRows ! 2 \<in> set (filteredData widgetRows ''Completed'' None ''Unit'')"
    unfolding search_covers_reserved_fields
      [of "widgetRows ! 2" widgetRows "''Completed''" None "''Unit''", THEN conjunct1]
    by code_simp
  have h: "widgetRows ! 0 \<notin> set (filteredData widgetRows ''Completed'' None ''Unit'')"
    unfolding search_covers_reserved_fields
      [of "widgetRows ! 0" widgetRows "''Completed''" None "''Unit''", THEN conjunct1]
    by code_simp
  have i: "widgetRows ! 0 \<in> set (filteredData widgetRows ''Widget A'' None ''Unit'')"
    unfolding search_covers_reserved_fields
      [of "widgetRows ! 0" widgetRows "''Widget A''" None "''Unit''", THEN conjunct1]
    by code_simp
  have j: "headers widgetRows = [''Name'', ''Price'', ''Unit'']" by code_simp
  from a b c d e f g h i j show ?thesis by blast
qed

section \<open>Default group-by column\<close>

lemma groupRegex_test_empty: "\<not> groupRegex_test []"
  by code_simp

text \<open>
  C8 (amended). If the current group column is one of the headers it is kept. Otherwise,
  for a non-empty header list, the effect selects the first header, in list order, that
  contains one of the eight tokens without regard to case, and the empty string when no
  header does. For an empty header list the effect leaves the current value as it is.
\<close>

theorem classifyCol_default:
  "(classifyCol \<in> set hs \<longrightarrow> classifyColEffect hs classifyCol = classifyCol)
   \<and> (classifyCol \<notin> set hs \<and> hs \<noteq> [] \<and> (\<forall>h\<in>set hs. \<not> groupRegex_test h)
        \<longrightarrow> classifyColEffect hs classifyCol = [])
   \<and> (classifyCol \<notin> set hs \<and> (\<exists>h\<in>set hs. groupRegex_test h)
        \<longrightarrow> (\<exists>i<length hs. classifyColEffect hs classifyCol = hs ! i \<and> groupRegex_test (hs ! i)
                \<and> (\<forall>j<i. \<not> groupRegex_test (hs ! j))))
   \<and> (hs = [] \<longrightarrow> classifyColEffect hs classifyCol = classifyCol)
   \<and> (groupRegex_test h
        \<longleftrightarrow> (\<exists>tok\<in>set [''unit'', ''measure'', ''packaging'', ''material'', ''type'', ''cat'',
                           ''group'', ''classification code''].
               includes_str (toLowerCase h) tok))"
proof -
  have keep: "classifyCol \<in> set hs \<Longrightarrow> classifyColEffect hs classifyCol = classifyCol"
    by (simp add: classifyColEffect_def)
  have none: "classifyColEffect hs classifyCol = []"
    if "classifyCol \<notin> set hs" "hs \<noteq> []" "\<forall>h\<in>set hs. \<not> groupRegex_test h"
  proof -
    from that(3) have "find groupRegex_test hs = None"
      by (simp add: find_None_iff)
    with that(1,2) show ?thesis by (simp add: classifyColEffect_def)
  qed
  have first: "\<exists>i<length hs. classifyColEffect hs classifyCol = hs ! i \<and> groupRegex_test (hs ! i)
                \<and> (\<forall>j<i. \<not> groupRegex_test (hs ! j))"
    if "classifyCol \<notin> set hs" "\<exists>h\<in>set hs. groupRegex_test h"
  proof -
    from that(2) have ne: "hs \<noteq> []" by auto
    from that(2) obtain c where c: "find groupRegex_test hs = Some c"
      by (cases "find groupRegex_test hs") (auto simp: find_None_iff)
    then obtain i where i: "i < length hs" "groupRegex_test (hs ! i)" "c = hs ! i"
      "\<forall>j<i. \<not> groupRegex_test (hs ! j)"
      unfolding find_Some_iff by blast
    from i(2,3) groupRegex_test_empty have "c \<noteq> []" by auto
    with that(1) ne c have "classifyColEffect hs classifyCol = c"
      by (simp add: classifyColEffect_def)
    with i show ?thesis by blast
  qed
  have empty: "hs = [] \<Longrightarrow> classifyColEffect hs classifyCol = classifyCol"
    by (simp add: classifyColEffect_def)
  have tok: "groupRegex_test h
        \<longleftrightarrow> (\<exists>tok\<in>set [''unit'', ''measure'', ''packaging'', ''material'', ''type'', ''cat'',
                           ''group'', ''classification code''].
               includes_str (toLowerCase h) tok)"
    unfolding groupRegex_test_def groupTokens_def list_ex_iff ..
  from keep none first empty tok show ?thesis by blast
qed

theorem classifyCol_default_witness:
  "classifyColEffect (headers widgetRows) [] = ''Unit''
   \<and> classifyColEffect (headers widgetRows) ''Price'' = ''Price''
   \<and> classifyColEffect [''Name'', ''Price''] ''Unit'' = []
   \<and> classifyColEffect [] ''Unit'' = ''Unit''"
proof -
  have hs: "headers widgetRows = [''Name'', ''Price'', ''Unit'']" by code_simp
  have m: "\<not> groupRegex_test ''Name''" "\<not> groupRegex_test ''Price''" "groupRegex_test ''Unit''"
    by code_simp+
  have a: "classifyColEffect (headers widgetRows) [] = ''Unit''"
  proof -
    have "[] \<notin> set [''Name'', ''Price'', ''Unit''] \<and> (\<exists>h\<in>set [''Name'', ''Price'', ''Unit'']. groupRegex_test h)"
      using m by simp
    with classifyCol_default [of "[]" "[''Name'', ''Price'', ''Unit'']"]
    obtain i where i: "i < length [''Name'', ''Price'', ''Unit'']"
      "classifyColEffect [''Name'', ''Price'', ''Unit''] [] = [''Name'', ''Price'', ''Unit''] ! i"
      "groupRegex_test ([''Name'', ''Price'', ''Unit''] ! i)" by blast
    from i(1) have "i = 0 \<or> i = 1 \<or> i = 2" by auto
    with i(3) m have "i = 2" by auto
    with i(2) hs show ?thesis by simp
  qed
  have b: "classifyColEffect (headers widgetRows) ''Price'' = ''Price''"
    using classifyCol_default [of "''Price''" "headers widgetRows"] hs by simp
  have c: "classifyColEffect [''Name'', ''Price''] ''Unit'' = []"
    using classifyCol_default [of "''Unit''" "[''Name'', ''Price'']"] m by simp
  have d: "classifyColEffect [] ''Unit'' = ''Unit''"
    using classifyCol_default [of "''Unit''" "[]"] by simp
  from a b c d show ?thesis by blast
qed

theorem classifyCol_empty_headers_counterexample:
  "''Unit'' \<notin> set ([] :: string list) \<and> \<not> list_ex groupRegex_test []
   \<and> classifyColEffect [] ''Unit'' \<noteq> []"
  by (simp add: classifyColEffect_def)

section \<open>Status toggle\<close>

lemma StatusToggle_twice: "StatusToggle (StatusToggle s) = s"
  by (cases s) (simp_all add: StatusToggle_def)

lemma StatusToggle_flips: "StatusToggle s \<noteq> s"
  by (cases s) (simp_all add: StatusToggle_def)

lemma update_by_id_distinct:
  assumes "distinct (map row_id rows)" and "i < length rows"
  shows "map (\<lambda>row. if row_id row = row_id (rows ! i) then row\<lparr>processingStatus := st\<rparr> else row) rows
         = rows[i := (rows ! i)\<lparr>processingStatus := st\<rparr>]"
proof (rule nth_equalityI)
  show "length (map (\<lambda>row. if row_id row = row_id (rows ! i) then row\<lparr>processingStatus := st\<rparr> else row) rows)
        = length (rows[i := (rows ! i)\<lparr>processingStatus := st\<rparr>])"
    by simp
next
  fix j
  assume "j < length (map (\<lambda>row. if row_id row = row_id (rows ! i) then row\<lparr>processingStatus := st\<rparr> else row) rows)"
  then have j: "j < length rows" by simp
  have "(row_id (rows ! j) = row_id (rows ! i)) = (j = i)"
    using nth_eq_iff_index_eq [OF assms(1), of j i] j assms(2) by simp
  with j show "map (\<lambda>row. if row_id row = row_id (rows ! i) then row\<lparr>processingStatus := st\<rparr> else row) rows ! j
        = rows[i := (rows ! i)\<lparr>processingStatus := st\<rparr>] ! j"
    by (simp add: nth_list_update)
qed

lemma handleUpdateStatus_active:
  assumes "fid \<noteq> []" and "k < length files" and "file_id (files ! k) = fid"
  shows "file_data (handleUpdateStatus (Some fid) rid st files ! k)
         = map (\<lambda>row. if row_id row = rid then row\<lparr>processingStatus := st\<rparr> else row)
             (file_data (files ! k))"
    and "file_id (handleUpdateStatus (Some fid) rid st files ! k) = fid"
    and "length (handleUpdateStatus (Some fid) rid st files) = length files"
  using assms by (simp_all add: handleUpdateStatus_def)

lemma click_active:
  assumes "fid \<noteq> []" and "k < length files" and "file_id (files ! k) = fid"
    and "distinct (map row_id (file_data (files ! k)))" and "i < length (file_data (files ! k))"
  shows "file_data (clickStatusToggle (Some fid) (file_data (files ! k) ! i) files ! k)
         = (file_data (files ! k))
             [i := (file_data (files ! k) ! i)
                     \<lparr>processingStatus := StatusToggle (processingStatus (file_data (files ! k) ! i))\<rparr>]"
  unfolding clickStatusToggle_def handleUpdateStatus_active(1) [OF assms(1-3)]
  using assms(4,5) by (rule update_by_id_distinct)

text \<open>
  C9. In the active file, with row ids distinct, a click on the toggle of the row at
  position \<open>i\<close> replaces that row by the same row with the other status: its id and cells
  are unchanged and every other row is unchanged. A second click on the toggle of the same
  row restores the row collection, so the status is the original one.
\<close>

theorem status_toggle_twice:
  assumes "fid \<noteq> []" and "k < length files" and "file_id (files ! k) = fid"
    and "distinct (map row_id (file_data (files ! k)))"
    and "i < length (file_data (files ! k))"
  shows "let row = file_data (files ! k) ! i;
             files1 = clickStatusToggle (Some fid) row files;
             row1 = file_data (files1 ! k) ! i;
             files2 = clickStatusToggle (Some fid) row1 files1
         in row1 = row\<lparr>processingStatus := StatusToggle (processingStatus row)\<rparr>
            \<and> row_id row1 = row_id row \<and> cells row1 = cells row
            \<and> processingStatus row1 \<noteq> processingStatus row
            \<and> length (file_data (files1 ! k)) = length (file_data (files ! k))
            \<and> (\<forall>j<length (file_data (files ! k)). j \<noteq> i
                  \<longrightarrow> file_data (files1 ! k) ! j = file_data (files ! k) ! j)
            \<and> processingStatus (file_data (files2 ! k) ! i) = processingStatus row
            \<and> file_data (files2 ! k) = file_data (files ! k)"
proof -
  define rows where "rows = file_data (files ! k)"
  define row where "row = rows ! i"
  define files1 where "files1 = clickStatusToggle (Some fid) row files"
  define rows1 where "rows1 = file_data (files1 ! k)"
  define row1 where "row1 = rows1 ! i"
  define files2 where "files2 = clickStatusToggle (Some fid) row1 files1"
  have i: "i < length rows" using assms(5) by (simp add: rows_def)
  have r1: "rows1 = rows[i := row\<lparr>processingStatus := StatusToggle (processingStatus row)\<rparr>]"
    unfolding rows1_def files1_def row_def rows_def by (rule click_active [OF assms])
  have row1: "row1 = row\<lparr>processingStatus := StatusToggle (processingStatus row)\<rparr>"
    using i by (simp add: row1_def r1)
  have k1: "k < length files1" "file_id (files1 ! k) = fid"
    unfolding files1_def clickStatusToggle_def
    using handleUpdateStatus_active(2,3) [OF assms(1-3)] assms(2) by simp_all
  have ids: "map row_id rows1 = map row_id rows"
    using i unfolding r1 row_def by (simp add: map_update list_update_same_conv)
  have d1: "distinct (map row_id (file_data (files1 ! k)))"
    using assms(4) ids by (simp add: rows1_def rows_def)
  have i1: "i < length (file_data (files1 ! k))"
    using i r1 by (simp add: rows1_def)
  have "file_data (files2 ! k)
        = rows1[i := row1\<lparr>processingStatus := StatusToggle (processingStatus row1)\<rparr>]"
    unfolding files2_def row1_def rows1_def by (rule click_active [OF assms(1) k1 d1 i1])
  also have "\<dots> = rows[i := row]"
    by (simp add: r1 row1 StatusToggle_twice)
  also have "\<dots> = rows"
    by (simp add: row_def)
  finally have restored: "file_data (files2 ! k) = rows" .
  have frame: "\<forall>j<length rows. j \<noteq> i \<longrightarrow> rows1 ! j = rows ! j"
    by (simp add: r1)
  have "row1 = row\<lparr>processingStatus := StatusToggle (processingStatus row)\<rparr>
        \<and> row_id row1 = row_id row \<and> cells row1 = cells row
        \<and> processingStatus row1 \<noteq> processingStatus row
        \<and> length rows1 = length rows
        \<and> (\<forall>j<length rows. j \<noteq> i \<longrightarrow> rows1 ! j = rows ! j)
        \<and> processingStatus (file_data (files2 ! k) ! i) = processingStatus row
        \<and> file_data (files2 ! k) = rows"
    using row1 frame restored StatusToggle_flips [of "processingStatus row"]
    by (simp add: r1 row_def)
  then show ?thesis
    unfolding Let_def files2_def row1_def rows1_def files1_def row_def rows_def .
qed

theorem status_toggle_twice_witness:
  "''file-1'' \<noteq> [] \<and> (0::nat) < length twoFiles \<and> file_id (twoFiles ! 0) = ''file-1''
   \<and> distinct (map row_id (file_data (twoFiles ! 0)))
   \<and> (1::nat) < length (file_data (twoFiles ! 0))
   \<and> processingStatus (file_data (twoFiles ! 0) ! 1) = INCOMPLETE
   \<and> processingStatus
        (file_data (clickStatusToggle (Some ''file-1'') (file_data (twoFiles ! 0) ! 1) twoFiles ! 0) ! 1)
       = COMPLETED
   \<and> file_data
        (clickStatusToggle (Some ''file-1'')
           (file_data (clickStatusToggle (Some ''file-1'') (file_data (twoFiles ! 0) ! 1) twoFiles ! 0) ! 1)
           (clickStatusToggle (Some ''file-1'') (file_data (twoFiles ! 0) ! 1) twoFiles) ! 0)
       = file_data (twoFiles ! 0)"
proof -
  have a: "''file-1'' \<noteq> []" by simp
  have b: "(0::nat) < length twoFiles" by code_simp
  have c: "file_id (twoFiles ! 0) = ''file-1''" by code_simp
  have d: "distinct (map row_id (file_data (twoFiles ! 0)))" by code_simp
  have e: "(1::nat) < length (file_data (twoFiles ! 0))" by code_simp
  have f: "processingStatus (file_data (twoFiles ! 0) ! 1) = INCOMPLETE" by code_simp
  from status_toggle_twice [OF a b c d e, unfolded Let_def]
  have g: "file_data (clickStatusToggle (Some ''file-1'') (file_data (twoFiles ! 0) ! 1) twoFiles ! 0) ! 1
           = (file_data (twoFiles ! 0) ! 1)
               \<lparr>processingStatus := StatusToggle (processingStatus (file_data (twoFiles ! 0) ! 1))\<rparr>"
    and h: "file_data
        (clickStatusToggle (Some ''file-1'')
           (file_data (clickStatusToggle (Some ''file-1'') (file_data (twoFiles ! 0) ! 1) twoFiles ! 0) ! 1)
           (clickStatusToggle (Some ''file-1'') (file_data (twoFiles ! 0) ! 1) twoFiles) ! 0)
       = file_data (twoFiles ! 0)"
    by blast+
  have "processingStatus
        (file_data (clickStatusToggle (Some ''file-1'') (file_data (twoFiles ! 0) ! 1) twoFiles ! 0) ! 1)
       = COMPLETED"
    unfolding g using f by (simp add: StatusToggle_def)
  with a b c d e f h show ?thesis by blast
qed

end
